theory Spec2Isabelle
  imports Complex_Main "HOL-Library.Sublist" "HOL-Library.Multiset"
begin

section \<open>Python values and strings\<close>

text \<open>
  The scripts read loosely typed records from the OpenReview API. A field value is one
  of the JSON shapes below. Python floats are modelled as exact reals: rounding of
  floating-point arithmetic is not part of the model. A string is a list of code points
  below 256, and the character predicates follow Python on that range; the text of a
  score is read on code points of any size.
\<close>

datatype pyval =
    VNone
  | VBool bool
  | VInt int
  | VFloat real
  | VStr string
  | VList "pyval list"
  | VDict "(string \<times> pyval) list"

text \<open>A dict keeps insertion order; \<open>key in d\<close> and \<open>d[key]\<close> are \<open>map_of\<close>.\<close>

type_synonym pydict = "(string \<times> pyval) list"

definition code_point :: "char \<Rightarrow> nat" where
  "code_point c = of_char c"

text \<open>\<open>str.isspace\<close>, which is also what \<open>\<^verbatim>\<open>\s\<close>\<close> matches in a str pattern.\<close>

definition py_isspace :: "char \<Rightarrow> bool" where
  "py_isspace c =
     (let n = code_point c
      in (9 \<le> n \<and> n \<le> 13) \<or> (28 \<le> n \<and> n \<le> 32) \<or> n = 133 \<or> n = 160)"

text \<open>The character class \<open>[0-9]\<close>; below 256 it is also what \<open>\<^verbatim>\<open>\d\<close>\<close> matches.\<close>

definition is_digit :: "char \<Rightarrow> bool" where
  "is_digit c = (let n = code_point c in 48 \<le> n \<and> n \<le> 57)"

definition lower_char :: "char \<Rightarrow> char" where
  "lower_char c =
     (let n = code_point c
      in if (65 \<le> n \<and> n \<le> 90) \<or> (192 \<le> n \<and> n \<le> 222 \<and> n \<noteq> 215)
         then char_of (n + 32) else c)"

definition lower :: "string \<Rightarrow> string" where
  "lower s = map lower_char s"

definition strip :: "string \<Rightarrow> string" where
  "strip s = rev (dropWhile py_isspace (rev (dropWhile py_isspace s)))"

text \<open>\<open>s.startswith(p)\<close> is \<open>prefix p s\<close>. \<open>sub in s\<close> on strings:\<close>

fun contains :: "string \<Rightarrow> string \<Rightarrow> bool" where
  "contains sub [] = (sub = [])"
| "contains sub (c # cs) = (prefix sub (c # cs) \<or> contains sub cs)"

section \<open>make\_decision.py: parsing a score\<close>

text \<open>
  The pattern of \<open>parse_numeric_score\<close> is matched against a Python \<open>str\<close>, whose
  characters are code points of any size. It is modelled on lists of code points, since
  digits and whitespace exist beyond 255; a field value \<open>VStr s\<close> enters through the
  code points of \<open>s\<close>.
\<close>

type_synonym codepoints = "nat list"

text \<open>\<open>\<^verbatim>\<open>\s\<close>\<close> in a str pattern: the code points on which \<open>str.isspace\<close> holds.\<close>

definition cp_isspace :: "nat \<Rightarrow> bool" where
  "cp_isspace n =
     ((9 \<le> n \<and> n \<le> 13) \<or> (28 \<le> n \<and> n \<le> 32) \<or> n = 133 \<or> n = 160 \<or> n = 5760
      \<or> (8192 \<le> n \<and> n \<le> 8202) \<or> n = 8232 \<or> n = 8233 \<or> n = 8239 \<or> n = 8287
      \<or> n = 12288)"

text \<open>The character class \<open>[0-9]\<close> of the source.\<close>

definition ascii_digit :: "nat \<Rightarrow> bool" where
  "ascii_digit n = (48 \<le> n \<and> n \<le> 57)"

definition ascii_digit_value :: "nat \<Rightarrow> nat" where
  "ascii_digit_value n = n - 48"

text \<open>
  \<open>re.match\<close> of the pattern \<open>\s*(D+(\.D+)?)\<close> for a class \<open>D\<close> of digits: group 1 as
  the pair of its integer digits and its fraction digits (empty when the optional group
  did not take part), or \<open>None\<close> when there is no match. Every quantifier is greedy
  and no two adjacent classes overlap, so the first attempt of the matcher is the match.
  The source's pattern is the one with \<open>D = [0-9]\<close>; 46 is the full stop.
\<close>

definition match_token :: "(nat \<Rightarrow> bool) \<Rightarrow> codepoints \<Rightarrow> (codepoints \<times> codepoints) option" where
  "match_token digit s =
     (let s1 = dropWhile cp_isspace s;
          ds = takeWhile digit s1;
          rest = dropWhile digit s1
      in if ds = [] then None
         else (case rest of
                 [] \<Rightarrow> Some (ds, [])
               | c # r \<Rightarrow>
                   if c = 46 \<and> takeWhile digit r \<noteq> []
                   then Some (ds, takeWhile digit r)
                   else Some (ds, [])))"

text \<open>The value of a digit string read in base ten, most significant digit first.\<close>

definition digits_value :: "(nat \<Rightarrow> nat) \<Rightarrow> codepoints \<Rightarrow> nat" where
  "digits_value dv ds = foldl (\<lambda>acc c. 10 * acc + dv c) 0 ds"

text \<open>
  \<open>float(m.group(1))\<close> on a token \<open>ds\<close> or \<open>ds.fs\<close>: the decimal value of the token.
  Python returns the double nearest to this value; the two are equal when the value is
  itself a double, and the model takes the value.
\<close>

definition token_value :: "(nat \<Rightarrow> nat) \<Rightarrow> codepoints \<times> codepoints \<Rightarrow> real" where
  "token_value dv t =
     (case t of (ds, fs) \<Rightarrow>
        real (digits_value dv ds) + real (digits_value dv fs) / 10 ^ length fs)"

text \<open>The string branch of \<open>parse_numeric_score\<close>: the match, then \<open>float\<close>.\<close>

definition score_of_text :: "codepoints \<Rightarrow> real option" where
  "score_of_text s = map_option (token_value ascii_digit_value) (match_token ascii_digit s)"

text \<open>
  \<open>parse_numeric_score\<close>. A bool is an \<open>int\<close> in Python, so it takes the numeric
  branch. \<open>str\<close> of a list or a dict starts with a bracket or a brace, where the
  pattern does not match. \<open>float\<close> of a digit token never raises.
\<close>

fun parse_numeric_score :: "pyval \<Rightarrow> real option" where
  "parse_numeric_score VNone = None"
| "parse_numeric_score (VBool b) = Some (if b then 1 else 0)"
| "parse_numeric_score (VInt n) = Some (real_of_int n)"
| "parse_numeric_score (VFloat x) = Some x"
| "parse_numeric_score (VStr s) = score_of_text (map code_point s)"
| "parse_numeric_score (VList xs) = None"
| "parse_numeric_score (VDict d) = None"





section \<open>make\_decision.py: notes and the client\<close>

text \<open>
  A note of the API, with the attributes the scripts read. \<open>number\<close>, \<open>forum\<close>,
  \<open>cdate\<close> and \<open>content\<close> may be \<open>None\<close>; an absent or \<open>None\<close> list of
  invitations is the empty list.
\<close>

record Note =
  note_id :: string
  forum :: "string option"
  number :: "int option"
  invitations :: "string list"
  cdate :: "int option"
  content :: "pydict option"

text \<open>
  \<open>iter_notes(client, forum=forum_id)\<close>: the client is the function from a forum
  identifier to the notes of that thread, in the order the API yields them.
\<close>

type_synonym client = "string \<Rightarrow> Note list"

text \<open>\<open>r.content or {}\<close>\<close>

definition content_or_empty :: "Note \<Rightarrow> pydict" where
  "content_or_empty n = (case content n of None \<Rightarrow> [] | Some c \<Rightarrow> c)"

text \<open>\<open>n.invitations[0] if n.invitations else ""\<close>\<close>

definition first_invitation :: "Note \<Rightarrow> string" where
  "first_invitation n = (case invitations n of [] \<Rightarrow> [] | i # _ \<Rightarrow> i)"

definition looks_like_review :: "Note \<Rightarrow> bool" where
  "looks_like_review n =
     (let inv = lower (first_invitation n)
      in contains ''review'' inv \<and> (contains ''official'' inv \<or> contains ''review'' inv))"

definition get_reviews_for_forum :: "client \<Rightarrow> string \<Rightarrow> Note list" where
  "get_reviews_for_forum cl forum_id = filter looks_like_review (cl forum_id)"

section \<open>make\_decision.py: the average review score\<close>

definition score_fields :: "string list" where
  "score_fields =
     [''rating'', ''overall_assessment'', ''overall recommendation'',
      ''overall_recommendation'', ''recommendation'', ''overall'', ''overall_score'']"

text \<open>\<open>k.replace(" ", "").lower()\<close>\<close>

definition norm_key :: "string \<Rightarrow> string" where
  "norm_key k = lower (filter (\<lambda>c. c \<noteq> CHR '' '') k)"

text \<open>
  The list \<open>candidates\<close> built for one key: the value under the exact key, or else the
  value of the first item whose normalised key equals the normalised key.
\<close>

definition field_candidates :: "pydict \<Rightarrow> string \<Rightarrow> pyval list" where
  "field_candidates c key =
     (case map_of c key of
        Some v \<Rightarrow> [v]
      | None \<Rightarrow>
          (case find (\<lambda>kv. norm_key (fst kv) = norm_key key) c of
             Some kv \<Rightarrow> [snd kv]
           | None \<Rightarrow> []))"

text \<open>
  The unwrapping of the \<open>{value: ...}\<close> form, written at each use in the source:
  \<open>val.get("value", dflt) if isinstance(val, dict) else val\<close>.
\<close>

definition unwrap_or :: "pyval \<Rightarrow> pyval \<Rightarrow> pyval" where
  "unwrap_or dflt v =
     (case v of
        VDict d \<Rightarrow> (case map_of d ''value'' of Some x \<Rightarrow> x | None \<Rightarrow> dflt)
      | _ \<Rightarrow> v)"

text \<open>\<open>val if not isinstance(val, dict) else val.get("value")\<close>\<close>

definition unwrap_value :: "pyval \<Rightarrow> pyval" where
  "unwrap_value v = unwrap_or VNone v"

text \<open>The loop over \<open>candidates\<close>; \<open>scores\<close> is the list shared by all reviews.\<close>

fun try_candidates :: "real list \<Rightarrow> pyval list \<Rightarrow> real list" where
  "try_candidates scores [] = scores"
| "try_candidates scores (val # vals) =
     (case parse_numeric_score (unwrap_value val) of
        Some sc \<Rightarrow> scores @ [sc]
      | None \<Rightarrow> try_candidates scores vals)"

text \<open>
  The loop over \<open>score_fields\<close> for one review. It is left by
  \<open>if scores and scores[-1] is not None: break\<close>, a test on the shared list: the
  elements of \<open>scores\<close> are floats, so the test is that the list is not empty.
\<close>

fun try_fields :: "real list \<Rightarrow> pydict \<Rightarrow> string list \<Rightarrow> real list" where
  "try_fields scores c [] = scores"
| "try_fields scores c (key # keys) =
     (let scores' = try_candidates scores (field_candidates c key)
      in if scores' \<noteq> [] then scores' else try_fields scores' c keys)"

fun collect_scores :: "real list \<Rightarrow> Note list \<Rightarrow> real list" where
  "collect_scores scores [] = scores"
| "collect_scores scores (r # rs) =
     collect_scores (try_fields scores (content_or_empty r) score_fields) rs"

text \<open>
  \<open>sum(scores) / len(scores)\<close>, or \<open>None\<close> for no score. The sum and the quotient
  are those of the reals; Python's are those of doubles, and agree with them whenever
  the partial sums and the mean are doubles themselves.
\<close>

definition average_review_score :: "Note list \<Rightarrow> real option" where
  "average_review_score review_notes =
     (let scores = collect_scores [] review_notes
      in if scores = [] then None
         else Some (sum_list scores / real (length scores)))"

section \<open>make\_decision.py: the decision of a forum\<close>

definition is_meta_review :: "Note \<Rightarrow> bool" where
  "is_meta_review n =
     (case invitations n of
        [] \<Rightarrow> False
      | i # _ \<Rightarrow> contains ''Meta_Review'' i \<or> contains ''Meta-Review'' i)"

text \<open>\<open>x.cdate or 0\<close>\<close>

definition cdate_key :: "Note \<Rightarrow> int" where
  "cdate_key x = (case cdate x of None \<Rightarrow> 0 | Some t \<Rightarrow> t)"

text \<open>
  \<open>sorted(xs, key=key, reverse=True)\<close>. Python keeps the sort stable under
  \<open>reverse=True\<close> by reversing the list, sorting it in ascending order and reversing
  the outcome; \<open>sort_key\<close> is a stable ascending sort.
\<close>

definition sorted_reverse :: "('a \<Rightarrow> int) \<Rightarrow> 'a list \<Rightarrow> 'a list" where
  "sorted_reverse key xs = rev (sort_key key (rev xs))"

text \<open>Truth value of a field value, as \<open>if val\<close> tests it.\<close>

fun truthy :: "pyval \<Rightarrow> bool" where
  "truthy VNone = False"
| "truthy (VBool b) = b"
| "truthy (VInt n) = (n \<noteq> 0)"
| "truthy (VFloat x) = (x \<noteq> 0)"
| "truthy (VStr s) = (s \<noteq> [])"
| "truthy (VList xs) = (xs \<noteq> [])"
| "truthy (VDict d) = (d \<noteq> [])"

text \<open>
  \<open>str(val)\<close>: a string is itself; the text of any other value is Python's built-in
  rendering, taken as the parameter \<open>repr\<close>.
\<close>

definition py_str :: "(pyval \<Rightarrow> string) \<Rightarrow> pyval \<Rightarrow> string" where
  "py_str repr v = (case v of VStr s \<Rightarrow> s | _ \<Rightarrow> repr v)"

definition decision_keys :: "string list" where
  "decision_keys =
     [''recommendation'', ''final_recommendation'', ''final decision'', ''decision'']"

text \<open>
  What the loop over the decision keys returns for the value \<open>v\<close> of a key that is
  present: \<open>val.get("value", "")\<close> for a dict, then
  \<open>str(val).strip() if val else None\<close>.
\<close>

definition decision_text :: "(pyval \<Rightarrow> string) \<Rightarrow> pyval \<Rightarrow> string option" where
  "decision_text repr v =
     (let val = unwrap_or (VStr []) v
      in if truthy val then Some (strip (py_str repr val)) else None)"

text \<open>
  The loop over the decision keys of the chosen meta-review: the first key present in
  the content returns, whatever its value; \<open>None\<close> when the loop ends.
\<close>

fun decision_of_content :: "(pyval \<Rightarrow> string) \<Rightarrow> pydict \<Rightarrow> string list \<Rightarrow> string option" where
  "decision_of_content repr c [] = None"
| "decision_of_content repr c (key # keys) =
     (case map_of c key of
        None \<Rightarrow> decision_of_content repr c keys
      | Some v \<Rightarrow> decision_text repr v)"

definition get_decision_for_forum :: "(pyval \<Rightarrow> string) \<Rightarrow> client \<Rightarrow> string \<Rightarrow> string option" where
  "get_decision_for_forum repr cl forum_id =
     (let meta_candidates = filter is_meta_review (cl forum_id)
      in if meta_candidates \<noteq> []
         then (case sorted_reverse cdate_key meta_candidates of
                 [] \<Rightarrow> None
               | meta # _ \<Rightarrow> decision_of_content repr (content_or_empty meta) decision_keys)
         else None)"

section \<open>make\_decision.py: the run over the submissions\<close>

text \<open>
  The search of the content for a paper number. \<open>int(v)\<close> is Python's built-in
  conversion, taken as the parameter \<open>py_int\<close>; \<open>None\<close> stands for the exception
  that the loop swallows.
\<close>

fun content_number :: "(pyval \<Rightarrow> int option) \<Rightarrow> pydict \<Rightarrow> string list \<Rightarrow> int option" where
  "content_number py_int c [] = None"
| "content_number py_int c (k # ks) =
     (let v = (case map_of c k of None \<Rightarrow> VNone | Some x \<Rightarrow> x);
          v' = unwrap_or VNone v
      in if v' \<noteq> VNone
         then (case py_int v' of Some n \<Rightarrow> Some n | None \<Rightarrow> content_number py_int c ks)
         else content_number py_int c ks)"

definition get_paper_number :: "(pyval \<Rightarrow> int option) \<Rightarrow> Note \<Rightarrow> int option" where
  "get_paper_number py_int n =
     (case number n of
        Some k \<Rightarrow> Some k
      | None \<Rightarrow>
          content_number py_int (content_or_empty n)
            [''number'', ''paper_number'', ''submission_number''])"

text \<open>\<open>paper_no\<close> as the loop of \<open>main\<close> settles it, with the fallback \<open>-1\<close>.\<close>

definition paper_no_of :: "(pyval \<Rightarrow> int option) \<Rightarrow> Note \<Rightarrow> int" where
  "paper_no_of py_int sub =
     (case get_paper_number py_int sub of
        Some p \<Rightarrow> p
      | None \<Rightarrow> (case number sub of Some k \<Rightarrow> k | None \<Rightarrow> - 1))"

text \<open>\<open>sub.forum or sub.id\<close>\<close>

definition forum_of :: "Note \<Rightarrow> string" where
  "forum_of sub =
     (case forum sub of None \<Rightarrow> note_id sub | Some f \<Rightarrow> if f = [] then note_id sub else f)"

text \<open>
  The flag of \<open>main\<close>, on the normalised decision text and the average score:
  \<open>accepted and (avg_score is not None) and (avg_score < 4.0)\<close>.
\<close>

definition classify_low_score_accept :: "string \<Rightarrow> real option \<Rightarrow> bool" where
  "classify_low_score_accept decision_str avg_score =
     (let accepted = prefix ''accept'' (lower decision_str)
      in accepted \<and> avg_score \<noteq> None \<and> the avg_score < 4)"

record row =
  paper_number :: int
  decision :: string
  comment :: string

text \<open>
  The loop of \<open>main\<close> over the submissions, with its two accumulators \<open>rows\<close> and
  \<open>flagged_low_score_accept\<close>.
\<close>

fun main_loop ::
  "(pyval \<Rightarrow> int option) \<Rightarrow> (pyval \<Rightarrow> string) \<Rightarrow> client \<Rightarrow>
   row list \<times> int list \<Rightarrow> Note list \<Rightarrow> row list \<times> int list" where
  "main_loop py_int repr cl (rows, flagged) [] = (rows, flagged)"
| "main_loop py_int repr cl (rows, flagged) (sub # subs) =
     (let forum_id = forum_of sub;
          paper_no = paper_no_of py_int sub;
          decision_opt = get_decision_for_forum repr cl forum_id;
          decision_str = strip (case decision_opt of None \<Rightarrow> [] | Some d \<Rightarrow> d);
          reviews = get_reviews_for_forum cl forum_id;
          avg_score = average_review_score reviews;
          flagged' = (if classify_low_score_accept decision_str avg_score
                      then flagged @ [paper_no] else flagged);
          rows' = rows @ [\<lparr>paper_number = paper_no, decision = decision_str, comment = []\<rparr>]
      in main_loop py_int repr cl (rows', flagged') subs)"

text \<open>
  What \<open>main\<close> hands to the two CSV writers: nothing when no submission was fetched
  (the run exits first); otherwise \<open>pd.DataFrame(rows).sort_values("paper_number")\<close>
  and \<open>sorted(set(flagged_low_score_accept))\<close>. The sort of pandas is the parameter
  \<open>sort_values\<close>: it orders the rows by paper number, and the order it gives to rows
  of equal paper number is its own.
\<close>

definition main_results ::
  "(pyval \<Rightarrow> int option) \<Rightarrow> (pyval \<Rightarrow> string) \<Rightarrow> (row list \<Rightarrow> row list) \<Rightarrow> client \<Rightarrow>
   Note list \<Rightarrow> (row list \<times> int list) option" where
  "main_results py_int repr sort_values cl submissions =
     (if submissions = [] then None
      else (case main_loop py_int repr cl ([], []) submissions of
              (rows, flagged) \<Rightarrow> Some (sort_values rows, sort (remdups flagged))))"

section \<open>extract\_accepted\_papers.py: the presentation type\<close>

definition presentation_type :: "string \<Rightarrow> string" where
  "presentation_type venue_field =
     (let venue_lower = lower venue_field
      in if contains ''oral'' venue_lower then ''Oral''
         else if contains ''poster'' venue_lower then ''Poster''
         else [])"

section \<open>extract\_author\_ids.py: resolving group members\<close>

text \<open>
  \<open>TILDE_RE.match(m)\<close> for \<open>^~.+\d+$\<close>: the dot matches no line feed, and \<open>$\<close>
  matches at the end of the string or before one final line feed. So, with that line
  feed set aside, the member is a tilde followed by at least two characters, none of
  them a line feed, the last of them a digit.
\<close>

definition tilde_match :: "string \<Rightarrow> bool" where
  "tilde_match m =
     (let b = (if m \<noteq> [] \<and> last m = CHR 0x0A then butlast m else m)
      in case b of
           [] \<Rightarrow> False
         | c # cs \<Rightarrow>
             c = CHR ''~'' \<and> 2 \<le> length cs \<and> CHR 0x0A \<notin> set cs \<and> is_digit (last cs))"

text \<open>A profile of the API; \<open>get_profiles\<close> may yield \<open>None\<close> in place of one.\<close>

record profile =
  profile_id :: "string option"

text \<open>\<open>if p and p.id: resolved.add(p.id)\<close>\<close>

definition add_profile :: "profile option \<Rightarrow> string set \<Rightarrow> string set" where
  "add_profile p resolved =
     (case p of
        None \<Rightarrow> resolved
      | Some q \<Rightarrow>
          (case profile_id q of
             None \<Rightarrow> resolved
           | Some i \<Rightarrow> if i \<noteq> [] then insert i resolved else resolved))"

text \<open>
  \<open>resolve_to_profile_ids\<close>; \<open>openreview.tools.get_profiles(client, unknowns)\<close> is
  the parameter \<open>get_profiles\<close>, a function of the list it is called with.
\<close>

definition resolve_to_profile_ids ::
  "(string list \<Rightarrow> profile option list) \<Rightarrow> string list \<Rightarrow> string set" where
  "resolve_to_profile_ids get_profiles members =
     (let tilde_ids = set (filter tilde_match members);
          unknowns = filter (\<lambda>m. m \<notin> tilde_ids) members;
          resolved = tilde_ids
      in if unknowns \<noteq> [] then fold add_profile (get_profiles unknowns) resolved
         else resolved)"

text \<open>
  \<open>openreview.tools.get_profiles\<close> is the library's: it looks up every identifier of
  the batch and returns the profiles it finds. It is modelled by a function
  \<open>resolve_one\<close> from a member to its profile, if it has one, applied to each member
  of the batch.
\<close>

definition batch_lookup :: "(string \<Rightarrow> profile option) \<Rightarrow> string list \<Rightarrow> profile option list" where
  "batch_lookup resolve_one unknowns = map resolve_one unknowns"

section \<open>Records used in the examples\<close>

text \<open>A reply with one invitation, a creation time and a content.\<close>

definition reply :: "string \<Rightarrow> int \<Rightarrow> pydict \<Rightarrow> Note" where
  "reply label t c =
     \<lparr>note_id = [], forum = None, number = None, invitations = [label],
      cdate = Some t, content = Some c\<rparr>"

text \<open>A review rated \<open>6: Weak Accept\<close> under the key \<open>rating\<close>.\<close>

definition review_rating_6 :: Note where
  "review_rating_6 =
     reply ''NeurIPS.cc/2025/Workshop/SEA/Submission1/-/Official_Review'' 1
       [(''rating'', VStr ''6: Weak Accept'')]"

text \<open>A review whose only score is \<open>4\<close>, wrapped, under the key \<open>recommendation\<close>.\<close>

definition review_recommendation_4 :: Note where
  "review_recommendation_4 =
     reply ''NeurIPS.cc/2025/Workshop/SEA/Submission1/-/Official_Review'' 2
       [(''recommendation'', VDict [(''value'', VStr ''4'')])]"

text \<open>Two meta-reviews of one submission, created at times 100 and 200.\<close>

definition meta_at_100 :: Note where
  "meta_at_100 =
     reply ''NeurIPS.cc/2025/Workshop/SEA/Submission1/-/Meta_Review'' 100
       [(''recommendation'', VStr ''Reject'')]"

definition meta_at_200 :: Note where
  "meta_at_200 =
     reply ''NeurIPS.cc/2025/Workshop/SEA/Submission1/-/Meta_Review'' 200
       [(''recommendation'', VDict [(''value'', VStr '' Accept (Poster) '')])]"

text \<open>A meta-review whose invitation label is written in lower case.\<close>

definition meta_lower_case_label :: Note where
  "meta_lower_case_label =
     reply ''NeurIPS.cc/2025/Workshop/SEA/Submission1/-/meta_review'' 100
       [(''recommendation'', VStr ''Accept'')]"

text \<open>A meta-review whose decision is stored under a capitalised key.\<close>

definition meta_capital_key :: Note where
  "meta_capital_key =
     reply ''NeurIPS.cc/2025/Workshop/SEA/Submission1/-/Meta_Review'' 100
       [(''Recommendation'', VStr ''Accept'')]"

text \<open>A meta-review whose recommendation starts with a number.\<close>

definition meta_recommendation_7 :: Note where
  "meta_recommendation_7 =
     reply ''NeurIPS.cc/2025/Workshop/SEA/Submission1/-/Meta_Review'' 3
       [(''recommendation'', VDict [(''value'', VStr ''7: Accept'')])]"

text \<open>A submission without a paper number, and one with the number \<open>k\<close>.\<close>

definition submission_without_number :: "string \<Rightarrow> Note" where
  "submission_without_number i =
     \<lparr>note_id = i, forum = Some i, number = None,
      invitations = [''NeurIPS.cc/2025/Workshop/SEA/-/Submission''],
      cdate = Some 1, content = Some [(''title'', VDict [(''value'', VStr ''A paper'')])]\<rparr>"

definition submission_numbered :: "string \<Rightarrow> int \<Rightarrow> Note" where
  "submission_numbered i k = (submission_without_number i)\<lparr>number := Some k\<rparr>"

text \<open>A directory of two addresses and their profiles.\<close>

definition directory :: "string \<Rightarrow> profile option" where
  "directory m =
     (if m = ''jane@example.com'' then Some \<lparr>profile_id = Some ''~Jane_Doe2''\<rparr>
      else if m = ''john@example.com'' then Some \<lparr>profile_id = Some ''~John_Roe1''\<rparr>
      else None)"

section \<open>Facts about strings\<close>

lemma contains_iff: "contains sub s \<longleftrightarrow> (\<exists>p q. s = p @ sub @ q)"
proof (induction s)
  case Nil
  then show ?case by simp
next
  case (Cons c cs)
  show ?case
  proof
    assume "contains sub (c # cs)"
    then consider "prefix sub (c # cs)" | "contains sub cs" by auto
    then show "\<exists>p q. c # cs = p @ sub @ q"
    proof cases
      case 1
      then obtain q where "c # cs = sub @ q" by (auto simp: prefix_def)
      then have "c # cs = [] @ sub @ q" by simp
      then show ?thesis by blast
    next
      case 2
      then obtain p q where "cs = p @ sub @ q" using Cons.IH by blast
      then have "c # cs = (c # p) @ sub @ q" by simp
      then show ?thesis by blast
    qed
  next
    assume "\<exists>p q. c # cs = p @ sub @ q"
    then obtain p q where pq: "c # cs = p @ sub @ q" by blast
    show "contains sub (c # cs)"
    proof (cases p)
      case Nil
      then have "prefix sub (c # cs)" using pq by (simp add: prefix_def)
      then show ?thesis by simp
    next
      case (Cons a p')
      then have "cs = p' @ sub @ q" using pq by simp
      then have "contains sub cs" using Cons.IH by blast
      then show ?thesis by simp
    qed
  qed
qed

lemma lower_append: "lower (a @ b) = lower a @ lower b"
  by (simp add: lower_def)

lemma contains_lower: "contains sub s \<Longrightarrow> contains (lower sub) (lower s)"
  unfolding contains_iff by (metis lower_append)

lemma contains_trans: "contains a b \<Longrightarrow> contains b c \<Longrightarrow> contains a c"
  unfolding contains_iff by (metis append.assoc)

section \<open>The pattern of parse\_numeric\_score\<close>













section \<open>The presentation type\<close>

text \<open>
  Claim C9. The presentation type of a venue tag is one of \<open>Oral\<close>, \<open>Poster\<close> and
  the empty string: \<open>Oral\<close> when the lower-cased tag contains \<open>oral\<close>, otherwise
  \<open>Poster\<close> when it contains \<open>poster\<close>, otherwise empty.
\<close>

theorem presentation_type_total:
  "presentation_type v \<in> {''Oral'', ''Poster'', []}
   \<and> ((\<exists>p q. lower v = p @ ''oral'' @ q) \<longrightarrow> presentation_type v = ''Oral'')
   \<and> (\<not> (\<exists>p q. lower v = p @ ''oral'' @ q) \<and> (\<exists>p q. lower v = p @ ''poster'' @ q)
        \<longrightarrow> presentation_type v = ''Poster'')
   \<and> (\<not> (\<exists>p q. lower v = p @ ''oral'' @ q) \<and> \<not> (\<exists>p q. lower v = p @ ''poster'' @ q)
        \<longrightarrow> presentation_type v = [])
   \<and> presentation_type ''SEA @ NeurIPS 2025 Oral'' = ''Oral''
   \<and> presentation_type ''SEA @ NeurIPS 2025 Poster'' = ''Poster''
   \<and> presentation_type ''Workshop Accept'' = []"
proof -
  have ex: "presentation_type ''SEA @ NeurIPS 2025 Oral'' = ''Oral''"
    "presentation_type ''SEA @ NeurIPS 2025 Poster'' = ''Poster''"
    "presentation_type ''Workshop Accept'' = []"
    by code_simp+
  have g: "presentation_type v =
      (if (\<exists>p q. lower v = p @ ''oral'' @ q) then ''Oral''
       else if (\<exists>p q. lower v = p @ ''poster'' @ q) then ''Poster'' else [])"
    unfolding presentation_type_def Let_def contains_iff by (rule refl)
  show ?thesis using ex
    by (simp add: g)
qed

theorem presentation_type_total_witness:
  "(\<exists>p q. lower ''Oral poster session'' = p @ ''oral'' @ q)
   \<and> presentation_type ''Oral poster session'' = ''Oral''"
proof -
  have "lower ''Oral poster session'' = [] @ ''oral'' @ '' poster session''"
    by code_simp
  then have e: "\<exists>p q. lower ''Oral poster session'' = p @ ''oral'' @ q" by blast
  then show ?thesis
    using presentation_type_total [where v = "''Oral poster session''"] by blast
qed

section \<open>The low-score flag\<close>

text \<open>
  Claim C2. The flag is raised if and only if the lower-cased decision text starts with
  \<open>accept\<close> and the average score is present and strictly below 4. So
  (\<open>Accept\<close>, 3.9) is flagged, (\<open>Accept\<close>, 4.0) and (\<open>Reject\<close>, 2.0) are not.
\<close>

theorem classify_low_score_accept_iff:
  "(classify_low_score_accept d s
      \<longleftrightarrow> (\<exists>rest. lower d = ''accept'' @ rest) \<and> (\<exists>x. s = Some x \<and> x < 4))
   \<and> classify_low_score_accept ''Accept'' (Some 3.9)
   \<and> \<not> classify_low_score_accept ''Accept'' (Some 4.0)
   \<and> \<not> classify_low_score_accept ''Reject'' (Some 2.0)"
proof -
  have ex: "classify_low_score_accept ''Accept'' (Some 3.9)"
    "\<not> classify_low_score_accept ''Accept'' (Some 4.0)"
    "\<not> classify_low_score_accept ''Reject'' (Some 2.0)"
    by code_simp+
  have g: "classify_low_score_accept d s
      \<longleftrightarrow> (\<exists>rest. lower d = ''accept'' @ rest) \<and> (\<exists>x. s = Some x \<and> x < 4)"
    by (cases s) (auto simp: classify_low_score_accept_def prefix_def)
  show ?thesis using ex g by blast
qed

section \<open>The average review score\<close>

text \<open>
  Claim C1, evaluated where the code departs from it. A review rated 6 under
  \<open>rating\<close> and a review whose score 4 sits under \<open>recommendation\<close>: alone, the
  second review averages 4, so its score is found by the candidate fields; placed after
  the first review it is dropped, and the average is 6 and not 5; placed before it, the
  average is 5.
\<close>

theorem average_review_score_order_dependent:
  "average_review_score [review_recommendation_4] = Some 4
   \<and> average_review_score [review_rating_6] = Some 6
   \<and> average_review_score [review_rating_6, review_recommendation_4] = Some 6
   \<and> average_review_score [review_recommendation_4, review_rating_6] = Some 5"
  by code_simp

section \<open>The decision of a forum\<close>

lemma insort_key_snoc:
  "\<forall>y\<in>set zs. f y < f x \<Longrightarrow> insort_key f x zs = zs @ [x]"
  by (induction zs) auto

lemma last_insort_key:
  "\<exists>y\<in>set zs. f x \<le> f y \<Longrightarrow> last (insort_key f x zs) = last zs"
proof (induction zs)
  case Nil
  then show ?case by simp
next
  case (Cons z zs)
  show ?case
  proof (cases "f x \<le> f z")
    case True
    then show ?thesis by simp
  next
    case False
    then have e: "\<exists>y\<in>set zs. f x \<le> f y" using Cons.prems by auto
    then have "zs \<noteq> []" by auto
    moreover have "insort_key f x zs \<noteq> []" by (cases zs) auto
    ultimately show ?thesis using False Cons.IH[OF e] by simp
  qed
qed

lemma last_sort_key:
  fixes f :: "'a \<Rightarrow> int"
  assumes "\<forall>y\<in>set ys. f y \<le> f m" "\<forall>z\<in>set zs. f z < f m"
  shows "last (sort_key f (ys @ m # zs)) = m"
  using assms(1)
proof (induction ys)
  case Nil
  have "insort_key f m (sort_key f zs) = sort_key f zs @ [m]"
    using assms(2) by (intro insort_key_snoc) simp
  then show ?case by simp
next
  case (Cons y ys)
  have m: "m \<in> set (sort_key f (ys @ m # zs))" by simp
  have "f y \<le> f m" using Cons.prems by simp
  then have "\<exists>w\<in>set (sort_key f (ys @ m # zs)). f y \<le> f w" using m by blast
  then have "last (insort_key f y (sort_key f (ys @ m # zs))) = last (sort_key f (ys @ m # zs))"
    by (rule last_insort_key)
  then show ?case using Cons by simp
qed

lemma sorted_reverse_first:
  assumes "xs = pre @ m # post" "\<forall>y\<in>set pre. key y < key m" "\<forall>y\<in>set post. key y \<le> key m"
  shows "\<exists>rest. sorted_reverse key xs = m # rest"
proof -
  have r: "rev xs = rev post @ m # rev pre" using assms(1) by simp
  have l: "last (sort_key key (rev xs)) = m"
    unfolding r using assms(2,3) by (intro last_sort_key) simp_all
  have ne: "sort_key key (rev xs) \<noteq> []" using assms(1)
    by (metis Nil_is_append_conv length_0_conv length_sort list.distinct(1) rev_is_Nil_conv)
  then have "sort_key key (rev xs) = butlast (sort_key key (rev xs)) @ [m]"
    using l by (metis append_butlast_last_id)
  then have "sorted_reverse key xs = m # rev (butlast (sort_key key (rev xs)))"
    unfolding sorted_reverse_def by (metis rev.simps(2) rev_rev_ident rev_swap singleton_rev_conv rev_append append_Cons append_Nil)
  then show ?thesis by blast
qed

lemma first_maximal_exists:
  fixes key :: "'a \<Rightarrow> int"
  shows "xs \<noteq> [] \<Longrightarrow>
    \<exists>pre m post. xs = pre @ m # post \<and> (\<forall>y\<in>set pre. key y < key m) \<and> (\<forall>y\<in>set post. key y \<le> key m)"
proof (induction xs)
  case Nil
  then show ?case by simp
next
  case (Cons x xs)
  show ?case
  proof (cases "xs = []")
    case True
    then have "x # xs = [] @ x # [] \<and> (\<forall>y\<in>set []. key y < key x) \<and> (\<forall>y\<in>set []. key y \<le> key x)"
      by simp
    then show ?thesis by blast
  next
    case False
    then obtain pre m post where h: "xs = pre @ m # post" "\<forall>y\<in>set pre. key y < key m"
      "\<forall>y\<in>set post. key y \<le> key m" using Cons.IH by blast
    show ?thesis
    proof (cases "key m \<le> key x")
      case True
      then have "\<forall>y\<in>set xs. key y \<le> key x" using h by force
      then have "x # xs = [] @ x # xs \<and> (\<forall>y\<in>set []. key y < key x) \<and> (\<forall>y\<in>set xs. key y \<le> key x)"
        by simp
      then show ?thesis by blast
    next
      case False
      then have "x # xs = (x # pre) @ m # post \<and> (\<forall>y\<in>set (x # pre). key y < key m) \<and> (\<forall>y\<in>set post. key y \<le> key m)"
        using h by simp
      then show ?thesis by blast
    qed
  qed
qed

lemma get_decision_none:
  "filter is_meta_review (cl f) = [] \<Longrightarrow> get_decision_for_forum repr cl f = None"
  by (simp add: get_decision_for_forum_def)

lemma get_decision_first_latest:
  assumes "filter is_meta_review (cl f) = pre @ m # post"
    "\<forall>y\<in>set pre. cdate_key y < cdate_key m" "\<forall>y\<in>set post. cdate_key y \<le> cdate_key m"
  shows "get_decision_for_forum repr cl f = decision_of_content repr (content_or_empty m) decision_keys"
proof -
  obtain rest where "sorted_reverse cdate_key (filter is_meta_review (cl f)) = m # rest"
    using sorted_reverse_first[OF assms] by blast
  then show ?thesis using assms(1) by (simp add: get_decision_for_forum_def)
qed

lemma decision_of_content_absent:
  "\<forall>k\<in>set keys. map_of c k = None \<Longrightarrow> decision_of_content repr c keys = None"
  by (induction keys) auto

lemma decision_of_content_first_present:
  "\<forall>k\<in>set pre. map_of c k = None \<Longrightarrow> map_of c key = Some v \<Longrightarrow>
   decision_of_content repr c (pre @ key # post) = decision_text repr v"
  by (induction pre) auto

lemma strip_trimmed:
  "strip s = [] \<or> (\<not> py_isspace (hd (strip s)) \<and> \<not> py_isspace (last (strip s)))"
proof (cases "strip s = []")
  case True then show ?thesis by simp
next
  case False
  let ?t = "dropWhile py_isspace s"
  let ?u = "dropWhile py_isspace (rev ?t)"
  have u: "?u \<noteq> []" using False by (simp add: strip_def)
  have 1: "\<not> py_isspace (hd ?u)" using u by (rule hd_dropWhile)
  have l: "last (strip s) = hd ?u" using u by (simp add: strip_def last_rev)
  have t: "?t \<noteq> []" using u by (metis dropWhile.simps(1) rev.simps(1))
  have 2: "\<not> py_isspace (hd ?t)" using t by (rule hd_dropWhile)
  obtain k where k: "rev ?t = k @ ?u"
    by (metis takeWhile_dropWhile_id)
  then have "?t = rev ?u @ rev k" by (metis rev_append rev_rev_ident)
  then have "hd ?t = hd (rev ?u)" using u by (metis hd_append2 rev_is_Nil_conv)
  then have "\<not> py_isspace (hd (strip s))" using 2 by (simp add: strip_def)
  then show ?thesis using 1 l by simp
qed

lemma strip_middle: "\<exists>a b. s = a @ strip s @ b \<and> list_all py_isspace a \<and> list_all py_isspace b"
proof -
  let ?t = "dropWhile py_isspace s"
  let ?u = "dropWhile py_isspace (rev ?t)"
  have 1: "s = takeWhile py_isspace s @ ?t" by simp
  have 2: "rev ?t = takeWhile py_isspace (rev ?t) @ ?u" by simp
  then have "?t = rev ?u @ rev (takeWhile py_isspace (rev ?t))" by (metis rev_append rev_rev_ident)
  then have "s = takeWhile py_isspace s @ strip s @ rev (takeWhile py_isspace (rev ?t))"
    using 1 unfolding strip_def by metis
  moreover have "list_all py_isspace (takeWhile py_isspace s)" by (induction s) auto
  moreover have "list_all py_isspace (rev (takeWhile py_isspace (rev ?t)))"
    by (simp add: list_all_iff) (meson set_takeWhileD)
  ultimately show ?thesis by blast
qed

text \<open>
  Claim C3. With no meta-review in the thread the decision is \<open>None\<close>. Otherwise
  the decision is read from the meta-review with the greatest creation time, the first
  such in the order of the thread when several share it (a meta-review without a
  creation time counts as created at 0). With two meta-reviews created at 100 and at 200,
  in either order, the decision is read from the one created at 200.
\<close>

theorem get_decision_for_forum_latest:
  "(filter is_meta_review (cl f) = [] \<longrightarrow> get_decision_for_forum repr cl f = None)
   \<and> (filter is_meta_review (cl f) \<noteq> [] \<longrightarrow>
        (\<exists>pre m post. filter is_meta_review (cl f) = pre @ m # post
           \<and> (\<forall>y\<in>set pre. cdate_key y < cdate_key m)
           \<and> (\<forall>y\<in>set post. cdate_key y \<le> cdate_key m)
           \<and> get_decision_for_forum repr cl f
               = decision_of_content repr (content_or_empty m) decision_keys))
   \<and> (cdate a = Some 100 \<and> cdate b = Some 200
        \<and> (filter is_meta_review (cl f) = [a, b] \<or> filter is_meta_review (cl f) = [b, a])
      \<longrightarrow> get_decision_for_forum repr cl f
            = decision_of_content repr (content_or_empty b) decision_keys)"
proof -
  have 1: "filter is_meta_review (cl f) = [] \<longrightarrow> get_decision_for_forum repr cl f = None"
    by (simp add: get_decision_none)
  have 2: "filter is_meta_review (cl f) \<noteq> [] \<longrightarrow>
        (\<exists>pre m post. filter is_meta_review (cl f) = pre @ m # post
           \<and> (\<forall>y\<in>set pre. cdate_key y < cdate_key m)
           \<and> (\<forall>y\<in>set post. cdate_key y \<le> cdate_key m)
           \<and> get_decision_for_forum repr cl f
               = decision_of_content repr (content_or_empty m) decision_keys)"
  proof
    assume "filter is_meta_review (cl f) \<noteq> []"
    then obtain pre m post where h: "filter is_meta_review (cl f) = pre @ m # post"
      "\<forall>y\<in>set pre. cdate_key y < cdate_key m" "\<forall>y\<in>set post. cdate_key y \<le> cdate_key m"
      using first_maximal_exists[of "filter is_meta_review (cl f)" cdate_key] by blast
    then show "\<exists>pre m post. filter is_meta_review (cl f) = pre @ m # post
           \<and> (\<forall>y\<in>set pre. cdate_key y < cdate_key m)
           \<and> (\<forall>y\<in>set post. cdate_key y \<le> cdate_key m)
           \<and> get_decision_for_forum repr cl f
               = decision_of_content repr (content_or_empty m) decision_keys"
      using get_decision_first_latest[of cl f pre m post repr] by blast
  qed
  have 3: "cdate a = Some 100 \<and> cdate b = Some 200
        \<and> (filter is_meta_review (cl f) = [a, b] \<or> filter is_meta_review (cl f) = [b, a])
      \<longrightarrow> get_decision_for_forum repr cl f
            = decision_of_content repr (content_or_empty b) decision_keys"
  proof
    assume h: "cdate a = Some 100 \<and> cdate b = Some 200
        \<and> (filter is_meta_review (cl f) = [a, b] \<or> filter is_meta_review (cl f) = [b, a])"
    then have k: "cdate_key a = 100" "cdate_key b = 200" by (simp_all add: cdate_key_def)
    from h consider "filter is_meta_review (cl f) = [a] @ b # []"
      | "filter is_meta_review (cl f) = [] @ b # [a]" by auto
    then show "get_decision_for_forum repr cl f
            = decision_of_content repr (content_or_empty b) decision_keys"
    proof cases
      case 1
      then show ?thesis using k by (intro get_decision_first_latest[of cl f "[a]" b "[]"]) simp_all
    next
      case 2
      then show ?thesis using k by (intro get_decision_first_latest[of cl f "[]" b "[a]"]) simp_all
    qed
  qed
  show ?thesis using 1 2 3 by blast
qed

lemma is_meta_examples:
  "is_meta_review meta_at_100" "is_meta_review meta_at_200"
  by code_simp+

theorem get_decision_for_forum_latest_witness:
  "get_decision_for_forum (\<lambda>v. []) (\<lambda>f. [meta_at_100, meta_at_200]) ''forum1''
     = Some ''Accept (Poster)''
   \<and> get_decision_for_forum (\<lambda>v. []) (\<lambda>f. [meta_at_200, meta_at_100]) ''forum1''
     = Some ''Accept (Poster)''
   \<and> get_decision_for_forum (\<lambda>v. []) (\<lambda>f. []) ''forum1'' = None"
proof -
  have c: "cdate meta_at_100 = Some 100" "cdate meta_at_200 = Some 200"
    by (simp_all add: meta_at_100_def meta_at_200_def reply_def)
  have d: "decision_of_content (\<lambda>v. []) (content_or_empty meta_at_200) decision_keys
      = Some ''Accept (Poster)''"
    by code_simp
  have 1: "get_decision_for_forum (\<lambda>v. []) (\<lambda>f. [meta_at_100, meta_at_200]) ''forum1''
     = Some ''Accept (Poster)''"
    using get_decision_for_forum_latest
      [where cl = "\<lambda>f. [meta_at_100, meta_at_200]" and a = meta_at_100 and b = meta_at_200
         and f = "''forum1''" and repr = "\<lambda>v. []"]
      c d is_meta_examples by simp
  have 2: "get_decision_for_forum (\<lambda>v. []) (\<lambda>f. [meta_at_200, meta_at_100]) ''forum1''
     = Some ''Accept (Poster)''"
    using get_decision_for_forum_latest
      [where cl = "\<lambda>f. [meta_at_200, meta_at_100]" and a = meta_at_100 and b = meta_at_200
         and f = "''forum1''" and repr = "\<lambda>v. []"]
      c d is_meta_examples by simp
  have 3: "get_decision_for_forum (\<lambda>v. []) (\<lambda>f. []) ''forum1'' = None"
    using get_decision_for_forum_latest
      [where cl = "\<lambda>f. []" and f = "''forum1''" and repr = "\<lambda>v. []"] by simp
  show ?thesis using 1 2 3 by simp
qed

text \<open>
  Claim C4, as stated: a label in lower case that contains \<open>meta_review\<close> is not
  classified as a meta-review.
\<close>

theorem is_meta_review_any_casing_counterexample:
  "\<not> is_meta_review meta_lower_case_label
   \<and> contains ''meta_review'' (lower (first_invitation meta_lower_case_label))"
  by code_simp

lemma lower_meta_literals:
  "lower ''Meta_Review'' = ''meta_review''" "lower ''Meta-Review'' = ''meta-review''"
  "contains ''review'' ''meta_review''" "contains ''review'' ''meta-review''"
  by code_simp+

text \<open>
  Claim C4, amended. A reply is a meta-review if and only if it has an invitation and
  its first invitation label contains \<open>Meta_Review\<close> or \<open>Meta-Review\<close> in exactly
  this casing. Every reply so classified also passes the case-insensitive test.
\<close>

theorem is_meta_review_exact_case:
  "(is_meta_review n \<longleftrightarrow>
      (\<exists>i rest. invitations n = i # rest
         \<and> ((\<exists>p q. i = p @ ''Meta_Review'' @ q) \<or> (\<exists>p q. i = p @ ''Meta-Review'' @ q))))
   \<and> (is_meta_review n \<longrightarrow>
        contains ''meta_review'' (lower (first_invitation n))
        \<or> contains ''meta-review'' (lower (first_invitation n)))"
proof -
  have 1: "is_meta_review n \<longleftrightarrow>
      (\<exists>i rest. invitations n = i # rest
         \<and> ((\<exists>p q. i = p @ ''Meta_Review'' @ q) \<or> (\<exists>p q. i = p @ ''Meta-Review'' @ q)))"
    unfolding is_meta_review_def contains_iff by (cases "invitations n") simp_all
  have 2: "is_meta_review n \<longrightarrow>
        contains ''meta_review'' (lower (first_invitation n))
        \<or> contains ''meta-review'' (lower (first_invitation n))"
  proof
    assume "is_meta_review n"
    then obtain i rest where i: "invitations n = i # rest"
      "contains ''Meta_Review'' i \<or> contains ''Meta-Review'' i"
      unfolding is_meta_review_def by (cases "invitations n") auto
    then have "first_invitation n = i" by (simp add: first_invitation_def)
    then show "contains ''meta_review'' (lower (first_invitation n))
        \<or> contains ''meta-review'' (lower (first_invitation n))"
      using i(2) contains_lower[of "''Meta_Review''" i] contains_lower[of "''Meta-Review''" i]
        lower_meta_literals(1,2) by metis
  qed
  show ?thesis using 1 2 by blast
qed

theorem is_meta_review_exact_case_witness:
  "is_meta_review meta_at_200
   \<and> contains ''meta_review'' (lower (first_invitation meta_at_200))"
proof -
  have "\<not> contains ''meta-review'' (lower (first_invitation meta_at_200))" by code_simp
  moreover have "invitations meta_at_200 =
      (''NeurIPS.cc/2025/Workshop/SEA/Submission1/-/'' @ ''Meta_Review'' @ []) # []"
    by (simp add: meta_at_200_def reply_def)
  ultimately show ?thesis
    using is_meta_review_exact_case [where n = meta_at_200] by blast
qed

lemma decision_of_content_Some:
  "decision_of_content repr c keys = Some d \<Longrightarrow>
   \<exists>k\<in>set keys. \<exists>v. map_of c k = Some v \<and> decision_text repr v = Some d"
  by (induction keys) (auto split: option.splits)

text \<open>
  Claim C5, as stated: a decision stored under the key \<open>Recommendation\<close> is found
  by the lookup that the scores use, through its case-insensitive step, but the decision
  of the forum is \<open>None\<close>.
\<close>

theorem decision_same_strategy_counterexample:
  "get_decision_for_forum (\<lambda>v. []) (\<lambda>f. [meta_capital_key]) ''forum1'' = None
   \<and> field_candidates (content_or_empty meta_capital_key) ''recommendation'' = [VStr ''Accept'']"
  by code_simp

text \<open>
  Claim C5, amended. The decision keys are tried in their fixed order by exact key match
  only. When none of them is a key of the content the decision is \<open>None\<close>. The
  first key that is present decides: its value, unwrapped from the \<open>{value: ...}\<close>
  form, gives \<open>None\<close> when it is empty, absent or otherwise false, and else its
  text trimmed of surrounding whitespace. A decision that is returned is such a trimmed
  text: it neither starts nor ends with whitespace.
\<close>

theorem decision_of_content_exact_keys:
  "((\<forall>k\<in>set decision_keys. map_of c k = None)
      \<longrightarrow> decision_of_content repr c decision_keys = None)
   \<and> (decision_keys = pre @ key # post \<and> (\<forall>k\<in>set pre. map_of c k = None)
        \<and> map_of c key = Some v
      \<longrightarrow> decision_of_content repr c decision_keys
            = (if truthy (unwrap_or (VStr []) v)
               then Some (strip (py_str repr (unwrap_or (VStr []) v))) else None))
   \<and> (decision_of_content repr c decision_keys = Some d
      \<longrightarrow> (\<exists>k\<in>set decision_keys. \<exists>v'. map_of c k = Some v'
             \<and> truthy (unwrap_or (VStr []) v')
             \<and> d = strip (py_str repr (unwrap_or (VStr []) v'))
             \<and> (\<exists>a b. py_str repr (unwrap_or (VStr []) v') = a @ d @ b
                    \<and> list_all py_isspace a \<and> list_all py_isspace b))
          \<and> (d = [] \<or> (\<not> py_isspace (hd d) \<and> \<not> py_isspace (last d))))"
proof -
  have 1: "(\<forall>k\<in>set decision_keys. map_of c k = None)
      \<longrightarrow> decision_of_content repr c decision_keys = None"
    using decision_of_content_absent[of decision_keys c repr] by blast
  have 2: "decision_keys = pre @ key # post \<and> (\<forall>k\<in>set pre. map_of c k = None)
        \<and> map_of c key = Some v
      \<longrightarrow> decision_of_content repr c decision_keys
            = (if truthy (unwrap_or (VStr []) v)
               then Some (strip (py_str repr (unwrap_or (VStr []) v))) else None)"
    using decision_of_content_first_present[of pre c key v repr post]
    by (auto simp: decision_text_def Let_def)
  have 3: "decision_of_content repr c decision_keys = Some d
      \<longrightarrow> (\<exists>k\<in>set decision_keys. \<exists>v'. map_of c k = Some v'
             \<and> truthy (unwrap_or (VStr []) v')
             \<and> d = strip (py_str repr (unwrap_or (VStr []) v'))
             \<and> (\<exists>a b. py_str repr (unwrap_or (VStr []) v') = a @ d @ b
                    \<and> list_all py_isspace a \<and> list_all py_isspace b))
          \<and> (d = [] \<or> (\<not> py_isspace (hd d) \<and> \<not> py_isspace (last d)))"
  proof
    assume a: "decision_of_content repr c decision_keys = Some d"
    then obtain k v' where kv: "k \<in> set decision_keys" "map_of c k = Some v'"
      "decision_text repr v' = Some d"
      using decision_of_content_Some by blast
    then have t: "truthy (unwrap_or (VStr []) v')"
      and d: "d = strip (py_str repr (unwrap_or (VStr []) v'))"
      by (auto simp: decision_text_def Let_def split: if_splits)
    have m: "\<exists>a b. py_str repr (unwrap_or (VStr []) v') = a @ d @ b
        \<and> list_all py_isspace a \<and> list_all py_isspace b"
      unfolding d by (rule strip_middle)
    have "d = [] \<or> (\<not> py_isspace (hd d) \<and> \<not> py_isspace (last d))"
      unfolding d by (rule strip_trimmed)
    then show "(\<exists>k\<in>set decision_keys. \<exists>v'. map_of c k = Some v'
             \<and> truthy (unwrap_or (VStr []) v')
             \<and> d = strip (py_str repr (unwrap_or (VStr []) v'))
             \<and> (\<exists>a b. py_str repr (unwrap_or (VStr []) v') = a @ d @ b
                    \<and> list_all py_isspace a \<and> list_all py_isspace b))
          \<and> (d = [] \<or> (\<not> py_isspace (hd d) \<and> \<not> py_isspace (last d)))"
      using kv t d m by blast
  qed
  show ?thesis using 1 2 3 by blast
qed

theorem decision_of_content_exact_keys_witness:
  "decision_of_content (\<lambda>v. []) (content_or_empty meta_at_200) decision_keys
     = Some ''Accept (Poster)''
   \<and> decision_of_content (\<lambda>v. []) (content_or_empty meta_capital_key) decision_keys = None"
proof -
  have k: "decision_keys = [] @ ''recommendation'' # 
      [''final_recommendation'', ''final decision'', ''decision'']"
    by (simp add: decision_keys_def)
  have m: "map_of (content_or_empty meta_at_200) ''recommendation''
      = Some (VDict [(''value'', VStr '' Accept (Poster) '')])"
    by (simp add: meta_at_200_def reply_def content_or_empty_def)
  have u: "unwrap_or (VStr []) (VDict [(''value'', VStr '' Accept (Poster) '')])
      = VStr '' Accept (Poster) ''"
    by (simp add: unwrap_or_def)
  have s: "strip '' Accept (Poster) '' = ''Accept (Poster)''" by code_simp
  have 1: "decision_of_content (\<lambda>v. []) (content_or_empty meta_at_200) decision_keys
     = Some ''Accept (Poster)''"
    using decision_of_content_exact_keys
      [where c = "content_or_empty meta_at_200" and pre = "[]" and key = "''recommendation''"
         and post = "[''final_recommendation'', ''final decision'', ''decision'']"
         and v = "VDict [(''value'', VStr '' Accept (Poster) '')]" and repr = "\<lambda>v. []"]
      k m u s by (simp add: py_str_def)
  have a: "\<forall>k\<in>set decision_keys. map_of (content_or_empty meta_capital_key) k = None"
    by (simp add: decision_keys_def meta_capital_key_def reply_def content_or_empty_def)
  have 2: "decision_of_content (\<lambda>v. []) (content_or_empty meta_capital_key) decision_keys = None"
    using decision_of_content_exact_keys
      [where c = "content_or_empty meta_capital_key" and repr = "\<lambda>v. []"] a by blast
  show ?thesis using 1 2 by simp
qed

section \<open>Meta-reviews among the reviews\<close>

lemma meta_looks_like_review: "is_meta_review n \<Longrightarrow> looks_like_review n"
proof -
  assume "is_meta_review n"
  then obtain i rest where i: "invitations n = i # rest"
    "contains ''Meta_Review'' i \<or> contains ''Meta-Review'' i"
    unfolding is_meta_review_def by (cases "invitations n") auto
  then have f: "first_invitation n = i" by (simp add: first_invitation_def)
  have "contains ''meta_review'' (lower i) \<or> contains ''meta-review'' (lower i)"
    using i(2) contains_lower[of "''Meta_Review''" i] contains_lower[of "''Meta-Review''" i]
      lower_meta_literals(1,2) by metis
  then have "contains ''review'' (lower i)"
    using lower_meta_literals(3,4) contains_trans by blast
  then show ?thesis using f by (simp add: looks_like_review_def)
qed

text \<open>
  Claim C6. A reply classified as a meta-review also looks like a review, so every
  meta-review of a thread is among the notes returned by \<open>get_reviews_for_forum\<close>.
  Its score-candidate fields then count: a thread with one review rated 6 averages 6,
  and 6.5 once it also holds a meta-review whose \<open>recommendation\<close> reads \<open>7: Accept\<close>.
\<close>

theorem meta_review_counted_as_review:
  "(is_meta_review n \<longrightarrow> looks_like_review n)
   \<and> (n \<in> set (cl f) \<and> is_meta_review n \<longrightarrow> n \<in> set (get_reviews_for_forum cl f))
   \<and> is_meta_review meta_recommendation_7
   \<and> average_review_score (get_reviews_for_forum (\<lambda>f. [review_rating_6]) ''forum1'') = Some 6
   \<and> average_review_score
       (get_reviews_for_forum (\<lambda>f. [meta_recommendation_7, review_rating_6]) ''forum1'')
     = Some 6.5"
proof -
  have 1: "is_meta_review n \<longrightarrow> looks_like_review n"
    using meta_looks_like_review by blast
  have 2: "n \<in> set (cl f) \<and> is_meta_review n \<longrightarrow> n \<in> set (get_reviews_for_forum cl f)"
    using meta_looks_like_review by (simp add: get_reviews_for_forum_def)
  have 3: "is_meta_review meta_recommendation_7" by code_simp
  have 4: "average_review_score (get_reviews_for_forum (\<lambda>f. [review_rating_6]) ''forum1'') = Some 6"
    by code_simp
  have 5: "average_review_score
       (get_reviews_for_forum (\<lambda>f. [meta_recommendation_7, review_rating_6]) ''forum1'')
     = Some 6.5"
    by code_simp
  show ?thesis using 1 2 3 4 5 by blast
qed

theorem meta_review_counted_as_review_witness:
  "is_meta_review meta_recommendation_7
   \<and> meta_recommendation_7
       \<in> set (get_reviews_for_forum (\<lambda>f. [meta_recommendation_7, review_rating_6]) ''forum1'')"
proof -
  have m: "is_meta_review meta_recommendation_7" by code_simp
  have "meta_recommendation_7 \<in> set ((\<lambda>f. [meta_recommendation_7, review_rating_6]) ''forum1'')"
    by simp
  then show ?thesis
    using m meta_review_counted_as_review
      [where n = meta_recommendation_7 and cl = "\<lambda>f. [meta_recommendation_7, review_rating_6]"
         and f = "''forum1''"]
    by blast
qed

section \<open>The run over the submissions\<close>

lemma main_loop_rows:
  "main_loop py_int repr cl (rows, fl) subs = (rows', fl') \<Longrightarrow>
   map paper_number rows' = map paper_number rows @ map (paper_no_of py_int) subs
   \<and> set fl' \<subseteq> set fl \<union> set (map (paper_no_of py_int) subs)"
proof (induction subs arbitrary: rows fl)
  case Nil
  then show ?case by simp
next
  case (Cons sub subs)
  let ?f = "forum_of sub"
  let ?d = "strip (case get_decision_for_forum repr cl ?f of None \<Rightarrow> [] | Some d \<Rightarrow> d)"
  let ?fl = "if classify_low_score_accept ?d (average_review_score (get_reviews_for_forum cl ?f))
             then fl @ [paper_no_of py_int sub] else fl"
  let ?rows = "rows @ [\<lparr>paper_number = paper_no_of py_int sub, decision = ?d, comment = []\<rparr>]"
  have "main_loop py_int repr cl (?rows, ?fl) subs = (rows', fl')"
    using Cons.prems by (simp add: Let_def)
  from Cons.IH[OF this] show ?case by (auto split: if_splits)
qed

lemma sorted_same_mset:
  fixes xs ys :: "int list"
  shows "mset ys = mset xs \<Longrightarrow> sorted ys \<Longrightarrow> ys = sort xs"
  by (metis properties_for_sort)

lemma paper_no_of_number: "number s = Some k \<Longrightarrow> paper_no_of py_int s = k"
  by (simp add: paper_no_of_def get_paper_number_def)

text \<open>
  Claim C7, as stated: two different fetched submissions that carry no paper number both
  get the number \<open>-1\<close>, and the run writes two rows with it.
\<close>

theorem main_results_shared_number_counterexample:
  "note_id (submission_without_number ''aBcD1234'') \<noteq> note_id (submission_without_number ''eFgH5678'')
   \<and> main_results (\<lambda>v. None) (\<lambda>v. []) (sort_key paper_number) (\<lambda>f. [])
        [submission_without_number ''aBcD1234'', submission_without_number ''eFgH5678'']
     = Some ([\<lparr>paper_number = - 1, decision = [], comment = []\<rparr>,
              \<lparr>paper_number = - 1, decision = [], comment = []\<rparr>], [])"
  by code_simp

text \<open>
  Claim C7, amended. A run over a non-empty list of fetched records writes exactly one
  row per record, ordered by paper number, and the paper numbers of the rows are those
  settled for the records (\<open>-1\<close> for a record without one). So no paper number
  appears twice among the rows exactly when none appears twice among the records, which
  is so when every record has a number and the numbers differ. The flagged paper numbers
  are sorted, pairwise distinct, and each is the paper number of a row. A run over an
  empty list writes nothing.
\<close>

theorem main_results_one_row_per_record:
  "(main_results py_int repr sort_values cl subs = None \<longleftrightarrow> subs = [])
   \<and> ((\<forall>rs. mset (sort_values rs) = mset rs \<and> sorted (map paper_number (sort_values rs)))
        \<and> main_results py_int repr sort_values cl subs = Some (out, flagged)
      \<longrightarrow> map paper_number out = sort (map (paper_no_of py_int) subs)
          \<and> length out = length subs
          \<and> (distinct (map paper_number out) \<longleftrightarrow> distinct (map (paper_no_of py_int) subs))
          \<and> ((\<forall>s\<in>set subs. number s \<noteq> None) \<and> distinct (map number subs)
               \<longrightarrow> distinct (map paper_number out))
          \<and> distinct flagged \<and> sorted flagged
          \<and> set flagged \<subseteq> set (map paper_number out))"
proof -
  obtain rows' fl' where m: "main_loop py_int repr cl ([], []) subs = (rows', fl')"
    by (cases "main_loop py_int repr cl ([], []) subs") auto
  have p: "map paper_number rows' = map (paper_no_of py_int) subs"
    "set fl' \<subseteq> set (map (paper_no_of py_int) subs)"
    using main_loop_rows[OF m] by simp_all
  have 1: "main_results py_int repr sort_values cl subs = None \<longleftrightarrow> subs = []"
    using m by (simp add: main_results_def)
  have 2: "(\<forall>rs. mset (sort_values rs) = mset rs \<and> sorted (map paper_number (sort_values rs)))
        \<and> main_results py_int repr sort_values cl subs = Some (out, flagged)
      \<longrightarrow> map paper_number out = sort (map (paper_no_of py_int) subs)
          \<and> length out = length subs
          \<and> (distinct (map paper_number out) \<longleftrightarrow> distinct (map (paper_no_of py_int) subs))
          \<and> ((\<forall>s\<in>set subs. number s \<noteq> None) \<and> distinct (map number subs)
               \<longrightarrow> distinct (map paper_number out))
          \<and> distinct flagged \<and> sorted flagged
          \<and> set flagged \<subseteq> set (map paper_number out)"
  proof
    assume a: "(\<forall>rs. mset (sort_values rs) = mset rs \<and> sorted (map paper_number (sort_values rs)))
        \<and> main_results py_int repr sort_values cl subs = Some (out, flagged)"
    then have e: "out = sort_values rows'" "flagged = sort (remdups fl')"
      using m by (auto simp: main_results_def split: if_splits)
    have ms: "mset out = mset rows'" and so: "sorted (map paper_number out)"
      using a e(1) by simp_all
    have "mset (map paper_number out) = mset (map (paper_no_of py_int) subs)"
      using ms p(1) by (metis mset_map)
    then have o: "map paper_number out = sort (map (paper_no_of py_int) subs)"
      using so by (rule sorted_same_mset)
    have l: "length out = length subs"
      using o by (metis length_map length_sort)
    have d: "distinct (map paper_number out) \<longleftrightarrow> distinct (map (paper_no_of py_int) subs)"
      unfolding o by simp
    have s: "set (map paper_number out) = set (map (paper_no_of py_int) subs)"
      unfolding o by simp
    have n: "(\<forall>s\<in>set subs. number s \<noteq> None) \<and> distinct (map number subs)
               \<longrightarrow> distinct (map paper_number out)"
    proof
      assume h: "(\<forall>s\<in>set subs. number s \<noteq> None) \<and> distinct (map number subs)"
      then have "map number subs = map (\<lambda>s. Some (paper_no_of py_int s)) subs"
        using paper_no_of_number by (intro map_cong) auto
      then have "map number subs = map Some (map (paper_no_of py_int) subs)" by simp
      then have "distinct (map (paper_no_of py_int) subs)"
        using h by (metis distinct_map)
      then show "distinct (map paper_number out)" using d by simp
    qed
    show "map paper_number out = sort (map (paper_no_of py_int) subs)
          \<and> length out = length subs
          \<and> (distinct (map paper_number out) \<longleftrightarrow> distinct (map (paper_no_of py_int) subs))
          \<and> ((\<forall>s\<in>set subs. number s \<noteq> None) \<and> distinct (map number subs)
               \<longrightarrow> distinct (map paper_number out))
          \<and> distinct flagged \<and> sorted flagged
          \<and> set flagged \<subseteq> set (map paper_number out)"
      using o l d n p(2) e(2) s by simp
  qed
  show ?thesis using 1 2 by blast
qed

theorem main_results_one_row_per_record_witness:
  "map paper_number
     [\<lparr>paper_number = 3, decision = [], comment = []\<rparr>,
      \<lparr>paper_number = 9, decision = [], comment = []\<rparr>]
     = sort (map (paper_no_of (\<lambda>v. None))
               [submission_numbered ''aBcD1234'' 9, submission_numbered ''eFgH5678'' 3])
   \<and> distinct (map paper_number
        [\<lparr>paper_number = 3, decision = [], comment = []\<rparr>,
         \<lparr>paper_number = 9, decision = [], comment = []\<rparr>])
   \<and> main_results (\<lambda>v. None) (\<lambda>v. []) (sort_key paper_number) (\<lambda>f. []) [] = None"
proof -
  have sv: "\<forall>rs. mset (sort_key paper_number rs) = mset rs
      \<and> sorted (map paper_number (sort_key paper_number rs))"
    by simp
  have c: "main_results (\<lambda>v. None) (\<lambda>v. []) (sort_key paper_number) (\<lambda>f. [])
      [submission_numbered ''aBcD1234'' 9, submission_numbered ''eFgH5678'' 3]
     = Some ([\<lparr>paper_number = 3, decision = [], comment = []\<rparr>,
              \<lparr>paper_number = 9, decision = [], comment = []\<rparr>], [])"
    by code_simp
  have n: "\<forall>s\<in>set [submission_numbered ''aBcD1234'' 9, submission_numbered ''eFgH5678'' 3].
      number s \<noteq> None"
    "distinct (map number [submission_numbered ''aBcD1234'' 9, submission_numbered ''eFgH5678'' 3])"
    by (simp_all add: submission_numbered_def)
  have 1: "map paper_number
     [\<lparr>paper_number = 3, decision = [], comment = []\<rparr>,
      \<lparr>paper_number = 9, decision = [], comment = []\<rparr>]
     = sort (map (paper_no_of (\<lambda>v. None))
               [submission_numbered ''aBcD1234'' 9, submission_numbered ''eFgH5678'' 3])
   \<and> distinct (map paper_number
        [\<lparr>paper_number = 3, decision = [], comment = []\<rparr>,
         \<lparr>paper_number = 9, decision = [], comment = []\<rparr>])"
    using sv c n main_results_one_row_per_record
      [where py_int = "\<lambda>v. None" and repr = "\<lambda>v. []" and cl = "\<lambda>f. []"
         and sort_values = "sort_key paper_number"
         and subs = "[submission_numbered ''aBcD1234'' 9, submission_numbered ''eFgH5678'' 3]"
         and out = "[\<lparr>paper_number = 3, decision = [], comment = []\<rparr>,
                     \<lparr>paper_number = 9, decision = [], comment = []\<rparr>]"
         and flagged = "[]"]
    by blast
  have 2: "main_results (\<lambda>v. None) (\<lambda>v. []) (sort_key paper_number) (\<lambda>f. []) [] = None"
    using main_results_one_row_per_record
      [where py_int = "\<lambda>v. None" and repr = "\<lambda>v. []" and cl = "\<lambda>f. []"
         and sort_values = "sort_key paper_number" and subs = "[]"]
    by blast
  show ?thesis using 1 2 by blast
qed

section \<open>Resolving group members\<close>

lemma fold_add_profile:
  "fold add_profile ps r =
   r \<union> {i. i \<noteq> [] \<and> (\<exists>q. Some q \<in> set ps \<and> profile_id q = Some i)}"
proof (induction ps arbitrary: r)
  case Nil
  then show ?case by simp
next
  case (Cons p ps)
  show ?case
    unfolding fold_simps Cons.IH
    by (auto simp: add_profile_def split: option.splits if_splits)
qed

lemma unknowns_eq:
  "filter (\<lambda>m. m \<notin> set (filter tilde_match ms)) ms = filter (\<lambda>m. \<not> tilde_match m) ms"
  by (rule filter_cong) auto

lemma resolve_union:
  "resolve_to_profile_ids gp ms =
     {m \<in> set ms. tilde_match m}
     \<union> {i. (\<exists>m\<in>set ms. \<not> tilde_match m) \<and> i \<noteq> []
           \<and> (\<exists>q. Some q \<in> set (gp (filter (\<lambda>m. \<not> tilde_match m) ms)) \<and> profile_id q = Some i)}"
proof -
  have n: "filter (\<lambda>m. \<not> tilde_match m) ms \<noteq> [] \<longleftrightarrow> (\<exists>m\<in>set ms. \<not> tilde_match m)"
    by (simp add: filter_empty_conv)
  show ?thesis
    unfolding resolve_to_profile_ids_def Let_def unknowns_eq fold_add_profile
    using n by auto
qed

lemma resolve_batch:
  "resolve_to_profile_ids (batch_lookup r) ms =
     {m \<in> set ms. tilde_match m}
     \<union> {i. i \<noteq> [] \<and> (\<exists>m\<in>set ms. \<not> tilde_match m
                          \<and> (\<exists>q. r m = Some q \<and> profile_id q = Some i))}"
proof -
  have "\<And>i. ((\<exists>m\<in>set ms. \<not> tilde_match m) \<and> i \<noteq> []
            \<and> (\<exists>q. Some q \<in> set (map r (filter (\<lambda>m. \<not> tilde_match m) ms))
                  \<and> profile_id q = Some i))
        \<longleftrightarrow> (i \<noteq> [] \<and> (\<exists>m\<in>set ms. \<not> tilde_match m
                          \<and> (\<exists>q. r m = Some q \<and> profile_id q = Some i)))"
  proof -
    fix i
    have "(\<exists>q. Some q \<in> set (map r (filter (\<lambda>m. \<not> tilde_match m) ms)) \<and> profile_id q = Some i)
        \<longleftrightarrow> (\<exists>m\<in>set ms. \<not> tilde_match m \<and> (\<exists>q. r m = Some q \<and> profile_id q = Some i))"
    proof
      assume "\<exists>q. Some q \<in> set (map r (filter (\<lambda>m. \<not> tilde_match m) ms)) \<and> profile_id q = Some i"
      then obtain q where q: "Some q \<in> r ` {m \<in> set ms. \<not> tilde_match m}"
        "profile_id q = Some i"
        by auto
      then obtain m where "m \<in> set ms" "\<not> tilde_match m" "Some q = r m"
        by blast
      then have "m \<in> set ms" "\<not> tilde_match m" "r m = Some q" "profile_id q = Some i"
        using q(2) by simp_all
      then show "\<exists>m\<in>set ms. \<not> tilde_match m \<and> (\<exists>q. r m = Some q \<and> profile_id q = Some i)"
        by blast
    next
      assume "\<exists>m\<in>set ms. \<not> tilde_match m \<and> (\<exists>q. r m = Some q \<and> profile_id q = Some i)"
      then obtain m q where h: "m \<in> set ms" "\<not> tilde_match m" "r m = Some q" "profile_id q = Some i"
        by blast
      then have "Some q \<in> set (map r (filter (\<lambda>m. \<not> tilde_match m) ms))"
        by force
      then show "\<exists>q. Some q \<in> set (map r (filter (\<lambda>m. \<not> tilde_match m) ms)) \<and> profile_id q = Some i"
        using h by blast
    qed
    then show "((\<exists>m\<in>set ms. \<not> tilde_match m) \<and> i \<noteq> []
            \<and> (\<exists>q. Some q \<in> set (map r (filter (\<lambda>m. \<not> tilde_match m) ms))
                  \<and> profile_id q = Some i))
        \<longleftrightarrow> (i \<noteq> [] \<and> (\<exists>m\<in>set ms. \<not> tilde_match m
                          \<and> (\<exists>q. r m = Some q \<and> profile_id q = Some i)))"
      by blast
  qed
  then show ?thesis
    unfolding resolve_union batch_lookup_def by simp
qed

text \<open>
  Claim C10. For every way of resolving a member to a profile, the result is the set of
  the members that match the tilde pattern together with the non-empty identifiers of
  the profiles found for the other members. It depends only on the set of the members,
  not on their order or multiplicity, so a second run on the same set gives the same
  set. The members \<open>~Jane_Doe1\<close> and \<open>jane@example.com\<close>, the second resolving
  to \<open>~Jane_Doe2\<close>, give \<open>~Jane_Doe1\<close> and \<open>~Jane_Doe2\<close> in either order.
\<close>

theorem resolve_to_profile_ids_set:
  "resolve_to_profile_ids (batch_lookup r) ms =
     {m \<in> set ms. tilde_match m}
     \<union> {i. i \<noteq> [] \<and> (\<exists>m\<in>set ms. \<not> tilde_match m
                          \<and> (\<exists>q. r m = Some q \<and> profile_id q = Some i))}
   \<and> (set ms = set ms'
      \<longrightarrow> resolve_to_profile_ids (batch_lookup r) ms
          = resolve_to_profile_ids (batch_lookup r) ms')
   \<and> (tilde_match m1 \<and> \<not> tilde_match m2 \<and> r m2 = Some \<lparr>profile_id = Some i2\<rparr> \<and> i2 \<noteq> []
      \<longrightarrow> resolve_to_profile_ids (batch_lookup r) [m1, m2] = {m1, i2}
          \<and> resolve_to_profile_ids (batch_lookup r) [m2, m1] = {m1, i2})
   \<and> resolve_to_profile_ids (batch_lookup directory) [''~Jane_Doe1'', ''jane@example.com'']
       = {''~Jane_Doe1'', ''~Jane_Doe2''}
   \<and> resolve_to_profile_ids (batch_lookup directory) [''jane@example.com'', ''~Jane_Doe1'']
       = {''~Jane_Doe1'', ''~Jane_Doe2''}"
proof -
  have 2: "set ms = set ms'
      \<longrightarrow> resolve_to_profile_ids (batch_lookup r) ms
          = resolve_to_profile_ids (batch_lookup r) ms'"
    unfolding resolve_batch by simp
  have 3: "tilde_match m1 \<and> \<not> tilde_match m2 \<and> r m2 = Some \<lparr>profile_id = Some i2\<rparr> \<and> i2 \<noteq> []
      \<longrightarrow> resolve_to_profile_ids (batch_lookup r) [m1, m2] = {m1, i2}
          \<and> resolve_to_profile_ids (batch_lookup r) [m2, m1] = {m1, i2}"
    unfolding resolve_batch by auto
  have t: "tilde_match ''~Jane_Doe1''" "\<not> tilde_match ''jane@example.com''"
    by code_simp+
  have d: "directory ''jane@example.com'' = Some \<lparr>profile_id = Some ''~Jane_Doe2''\<rparr>"
    by (simp add: directory_def)
  have 4: "resolve_to_profile_ids (batch_lookup directory) [''~Jane_Doe1'', ''jane@example.com'']
       = {''~Jane_Doe1'', ''~Jane_Doe2''}"
    unfolding resolve_batch using t d by auto
  have 5: "resolve_to_profile_ids (batch_lookup directory) [''jane@example.com'', ''~Jane_Doe1'']
       = {''~Jane_Doe1'', ''~Jane_Doe2''}"
    unfolding resolve_batch using t d by auto
  show ?thesis using resolve_batch[of r ms] 2 3 4 5 by blast
qed

theorem resolve_to_profile_ids_set_witness:
  "set [''~Jane_Doe1'', ''jane@example.com'', ''~Jane_Doe1'']
     = set [''jane@example.com'', ''~Jane_Doe1'']
   \<and> resolve_to_profile_ids (batch_lookup directory)
        [''~Jane_Doe1'', ''jane@example.com'', ''~Jane_Doe1'']
     = resolve_to_profile_ids (batch_lookup directory) [''jane@example.com'', ''~Jane_Doe1'']
   \<and> resolve_to_profile_ids (batch_lookup directory) [''~John_Roe7'', ''john@example.com'']
     = {''~John_Roe7'', ''~John_Roe1''}"
proof -
  have s: "set [''~Jane_Doe1'', ''jane@example.com'', ''~Jane_Doe1'']
     = set [''jane@example.com'', ''~Jane_Doe1'']"
    by auto
  have t: "tilde_match ''~John_Roe7''" "\<not> tilde_match ''john@example.com''"
    by code_simp+
  have d: "directory ''john@example.com'' = Some \<lparr>profile_id = Some ''~John_Roe1''\<rparr>"
    "''~John_Roe1'' \<noteq> []"
    by (simp_all add: directory_def)
  have 1: "resolve_to_profile_ids (batch_lookup directory)
        [''~Jane_Doe1'', ''jane@example.com'', ''~Jane_Doe1'']
     = resolve_to_profile_ids (batch_lookup directory) [''jane@example.com'', ''~Jane_Doe1'']"
    using s resolve_to_profile_ids_set
      [where r = directory
         and ms = "[''~Jane_Doe1'', ''jane@example.com'', ''~Jane_Doe1'']"
         and ms' = "[''jane@example.com'', ''~Jane_Doe1'']"]
    by blast
  have 2: "resolve_to_profile_ids (batch_lookup directory) [''~John_Roe7'', ''john@example.com'']
     = {''~John_Roe7'', ''~John_Roe1''}"
    using t d resolve_to_profile_ids_set
      [where r = directory and ?m1.0 = "''~John_Roe7''" and ?m2.0 = "''john@example.com''"
         and ?i2.0 = "''~John_Roe1''"]
    by blast
  show ?thesis using s 1 2 by blast
qed

end
